theory Spec2Isabelle
  imports Complex_Main
begin

section \<open>Data model of matching\_engine.cpp\<close>

text \<open>
  The three structs of the program are records. The fields of \<open>Transaction\<close> carry the
  prefix \<open>txn_\<close> where \<open>Order\<close> has a field of the same name, and the field \<open>id\<close> of
  \<open>Order\<close> is \<open>order_id\<close> (\<open>id\<close> is the identity function of HOL).

  C++ \<open>int\<close> is 32 bits wide. A field of type \<open>int\<close> is an \<open>int\<close> here, and the
  additions that can leave the range (on the balances, the transaction id and the id
  minted) are written with the two's complement wrap-around \<open>int32\<close>, which is what the
  compiled program does on signed overflow. The two subtractions of \<open>match_order\<close> are
  between quantities with 0 < resting quantity \<le> aggressor's quantity for every order the
  program lets rest; they stay in range and are written without the wrap.

  C++ \<open>double\<close> is IEEE 754 binary64. A price is always a finite double (the command
  reader accepts only the characters \<open>0123456789.-\<close> and turns a text out of range into
  0), so a price is the rational number it denotes, and the comparisons of prices are
  those of rational numbers. A USD balance is computed, so it is a \<open>double\<close>: a finite
  value, an infinity or NaN. Every arithmetic operation on doubles rounds its exact result
  once, to the nearest double with ties to the even significand (\<open>round_double\<close>); no
  fused or extended-precision evaluation is assumed. The sign of zero is not modelled: no
  operation of the program tells \<open>-0.0\<close> from \<open>0.0\<close> but printing.
\<close>

definition int32 :: "int \<Rightarrow> int" where
  "int32 x = (x + 2147483648) mod 4294967296 - 2147483648"

datatype double = Finite rat | PlusInf | MinusInf | NaN

text \<open>The number of binary digits of \<open>n\<close>; \<open>ilog2 x\<close> is the \<open>e\<close> with \<open>2^e \<le> x < 2^(e+1)\<close>, for \<open>x > 0\<close>.\<close>

fun bit_length :: "nat \<Rightarrow> nat" where
  "bit_length n = (if n = 0 then 0 else Suc (bit_length (n div 2)))"

definition ilog2 :: "rat \<Rightarrow> int" where
  "ilog2 x = (if 1 \<le> x then int (bit_length (nat \<lfloor>x\<rfloor>)) - 1
              else - int (bit_length (nat (\<lceil>1 / x\<rceil> - 1))))"

definition pow2 :: "int \<Rightarrow> rat" where
  "pow2 e = (if 0 \<le> e then 2 ^ nat e else 1 / 2 ^ nat (- e))"

definition round_half_even :: "rat \<Rightarrow> int" where
  "round_half_even m =
     (let f = \<lfloor>m\<rfloor>; d = m - of_int f
      in if d < 1 / 2 then f else if 1 / 2 < d then f + 1 else if even f then f else f + 1)"

text \<open>
  Rounding to binary64: the significand has 53 bits, so the unit in the last place of \<open>x\<close>
  is \<open>2^(e - 52)\<close> for \<open>2^e \<le> |x| < 2^(e+1)\<close>, and \<open>2^-1074\<close> in the subnormal range; a result
  that rounds to \<open>2^1024\<close> or more in magnitude is an infinity.
\<close>

definition round_double :: "rat \<Rightarrow> double" where
  "round_double x =
     (if x = 0 then Finite 0
      else let u = max (ilog2 \<bar>x\<bar> - 52) (- 1074);
               r = of_int (round_half_even (x / pow2 u)) * pow2 u
           in if pow2 1024 \<le> \<bar>r\<bar> then (if 0 < x then PlusInf else MinusInf) else Finite r)"

text \<open>Addition, negation, subtraction and \<open>>=\<close> of doubles.\<close>

fun dadd :: "double \<Rightarrow> double \<Rightarrow> double" where
  "dadd NaN b = NaN"
| "dadd a NaN = NaN"
| "dadd PlusInf MinusInf = NaN"
| "dadd MinusInf PlusInf = NaN"
| "dadd PlusInf b = PlusInf"
| "dadd a PlusInf = PlusInf"
| "dadd MinusInf b = MinusInf"
| "dadd a MinusInf = MinusInf"
| "dadd (Finite a) (Finite b) = round_double (a + b)"

fun dneg :: "double \<Rightarrow> double" where
  "dneg (Finite a) = Finite (- a)"
| "dneg PlusInf = MinusInf"
| "dneg MinusInf = PlusInf"
| "dneg NaN = NaN"

definition dsub :: "double \<Rightarrow> double \<Rightarrow> double" where
  "dsub a b = dadd a (dneg b)"

fun dge :: "double \<Rightarrow> double \<Rightarrow> bool" where
  "dge NaN b = False"
| "dge a NaN = False"
| "dge PlusInf b = True"
| "dge a MinusInf = True"
| "dge MinusInf b = False"
| "dge a PlusInf = False"
| "dge (Finite a) (Finite b) = (b \<le> a)"

record Transaction =
  txn_id :: int
  txn_quantity :: int
  txn_price :: rat
  txn_timestamp :: int
  buyer :: string
  seller :: string
  aggressor :: string

record Account_Details =
  usd_balance :: double
  coin_balance :: int

record Order =
  order_id :: int
  account_name :: string
  is_buy :: bool
  quantity :: int
  price :: rat
  timestamp :: int

text \<open>\<open>OrderComparator::operator()\<close>: the direction is chosen by the left argument.\<close>

definition OrderComparator :: "Order \<Rightarrow> Order \<Rightarrow> bool" where
  "OrderComparator a b =
     (if is_buy a
      then price a > price b \<or> (price a = price b \<and> timestamp a < timestamp b)
      else price a < price b \<or> (price a = price b \<and> timestamp a < timestamp b))"

text \<open>
  A \<open>std::multiset<Order, OrderComparator>\<close> is the list of its elements in iteration
  order. \<open>emplace\<close> descends the tree going left exactly when the comparator puts the new
  element before the node, so the new element lands before the first element it is
  ordered before (the upper bound of its equivalence class).
\<close>

fun emplace :: "Order \<Rightarrow> Order list \<Rightarrow> Order list" where
  "emplace x [] = [x]"
| "emplace x (y # ys) = (if OrderComparator x y then x # y # ys else y # emplace x ys)"

text \<open>\<open>std::find_if\<close> followed by \<open>erase\<close> of the iterator found, if any.\<close>

fun erase_found :: "('a \<Rightarrow> bool) \<Rightarrow> 'a list \<Rightarrow> 'a list" where
  "erase_found P [] = []"
| "erase_found P (x # xs) = (if P x then xs else x # erase_found P xs)"

text \<open>
  The private member \<open>order_book\<close> is a \<open>std::map\<close> from side name to multiset that is only
  ever read through \<open>operator[]\<close>, which creates an empty multiset for a missing key: a
  total function from the side name to the list, empty by default.
\<close>

type_synonym book = "string \<Rightarrow> Order list"

definition empty_book :: book where
  "empty_book = (\<lambda>side. [])"

text \<open>
  The global \<open>accounts\<close> is a \<open>std::map\<close> whose keys matter (\<open>find\<close>, \<open>erase\<close>, \<open>size\<close>): a
  partial map. \<open>accounts[k]\<close> inserts a value-initialised \<open>Account_Details\<close> for a missing
  key: \<open>subscript\<close> is the map after the access, \<open>entry\<close> the element it refers to.
\<close>

type_synonym account_table = "string \<rightharpoonup> Account_Details"

definition entry :: "account_table \<Rightarrow> string \<Rightarrow> Account_Details" where
  "entry accounts k =
     (case accounts k of None \<Rightarrow> \<lparr>usd_balance = Finite 0, coin_balance = 0\<rparr> | Some a \<Rightarrow> a)"

definition subscript :: "account_table \<Rightarrow> string \<Rightarrow> account_table" where
  "subscript accounts k = accounts(k \<mapsto> entry accounts k)"

text \<open>The compound assignments \<open>+=\<close> and \<open>-=\<close> on the two balances of \<open>accounts[k]\<close>.\<close>

definition add_coin :: "string \<Rightarrow> int \<Rightarrow> account_table \<Rightarrow> account_table" where
  "add_coin k n accounts =
     accounts(k \<mapsto> (entry accounts k)\<lparr>coin_balance := int32 (coin_balance (entry accounts k) + n)\<rparr>)"

definition sub_coin :: "string \<Rightarrow> int \<Rightarrow> account_table \<Rightarrow> account_table" where
  "sub_coin k n accounts =
     accounts(k \<mapsto> (entry accounts k)\<lparr>coin_balance := int32 (coin_balance (entry accounts k) - n)\<rparr>)"

definition add_usd :: "string \<Rightarrow> double \<Rightarrow> account_table \<Rightarrow> account_table" where
  "add_usd k x accounts =
     accounts(k \<mapsto> (entry accounts k)\<lparr>usd_balance := dadd (usd_balance (entry accounts k)) x\<rparr>)"

definition sub_usd :: "string \<Rightarrow> double \<Rightarrow> account_table \<Rightarrow> account_table" where
  "sub_usd k x accounts =
     accounts(k \<mapsto> (entry accounts k)\<lparr>usd_balance := dsub (usd_balance (entry accounts k)) x\<rparr>)"

section \<open>OrderBook\<close>

definition add_order :: "Order \<Rightarrow> book \<Rightarrow> book" where
  "add_order order b =
     (let side = (if is_buy order then ''buy'' else ''sell'')
      in b(side := emplace order (b side)))"

definition remove_order :: "int \<Rightarrow> book \<Rightarrow> book" where
  "remove_order oid b =
     (if oid = 0 then b
      else let side = (if oid < 0 then ''buy'' else ''sell'')
           in b(side := erase_found (\<lambda>x. order_id x = oid) (b side)))"

text \<open>
  \<open>settle_accounts\<close>: the four balance updates in the order of the source, then the
  transaction. \<open>quantity * price\<close> converts the \<open>int\<close> to a double, which is exact, and
  rounds the product. \<open>static_cast<int>(transactions.size()) + 1\<close> wraps at the cast and at
  the addition. \<open>now\<close> is the value \<open>get_epoch_ms()\<close> returns at this call.
\<close>

definition settle_accounts ::
  "string \<Rightarrow> string \<Rightarrow> int \<Rightarrow> rat \<Rightarrow> string \<Rightarrow> int \<Rightarrow>
   account_table \<Rightarrow> Transaction list \<Rightarrow> account_table \<times> Transaction list" where
  "settle_accounts buyer_name seller_name qty prc aggr now accounts transactions =
     (let a1 = add_coin buyer_name qty accounts;
          a2 = sub_usd buyer_name (round_double (of_int qty * prc)) a1;
          a3 = sub_coin seller_name qty a2;
          a4 = add_usd seller_name (round_double (of_int qty * prc)) a3;
          transaction = \<lparr>txn_id = int32 (int32 (int (length transactions)) + 1),
                          txn_quantity = qty, txn_price = prc, txn_timestamp = now,
                          buyer = buyer_name, seller = seller_name, aggressor = aggr\<rparr>
      in (a4, transactions @ [transaction]))"

text \<open>
  The loop of \<open>match_order\<close>. The iterator starts at \<open>begin()\<close> and after each \<open>erase\<close> is
  again the first element, so the loop always looks at the head of the side. \<open>clk k\<close> is
  the clock reading of the \<open>k\<close>-th settlement.
\<close>

fun match_loop ::
  "(nat \<Rightarrow> int) \<Rightarrow> nat \<Rightarrow> Order \<Rightarrow> Order list \<Rightarrow> account_table \<Rightarrow> Transaction list \<Rightarrow>
   Order \<times> Order list \<times> account_table \<times> Transaction list" where
  "match_loop clk k order [] accounts transactions = (order, [], accounts, transactions)"
| "match_loop clk k order (order_it # rest) accounts transactions =
     (if (if is_buy order then price order_it \<le> price order else price order_it \<ge> price order)
         \<and> quantity order > 0 \<and> account_name order \<noteq> account_name order_it
      then
        (if quantity order_it \<le> quantity order
         then
           (let order' = order\<lparr>quantity := quantity order - quantity order_it\<rparr>;
                buyer_name = (if is_buy order' then account_name order' else account_name order_it);
                seller_name = (if is_buy order' then account_name order_it else account_name order');
                (accounts', transactions') =
                   settle_accounts buyer_name seller_name (quantity order_it) (price order_it)
                     (if is_buy order' then ''buy'' else ''sell'') (clk k) accounts transactions
            in match_loop clk (Suc k) order' rest accounts' transactions')
         else
           (let updatedOrder = \<lparr>order_id = order_id order_it, account_name = account_name order_it,
                                 is_buy = is_buy order_it,
                                 quantity = quantity order_it - quantity order,
                                 price = price order_it, timestamp = timestamp order_it\<rparr>;
                buyer_name = (if is_buy order then account_name order else account_name order_it);
                seller_name = (if is_buy order then account_name order_it else account_name order);
                (accounts', transactions') =
                   settle_accounts buyer_name seller_name (quantity order) (price order_it)
                     (if is_buy order then ''buy'' else ''sell'') (clk k) accounts transactions
            in (order\<lparr>quantity := 0\<rparr>, emplace updatedOrder rest, accounts', transactions')))
      else (order, order_it # rest, accounts, transactions))"

text \<open>
  \<open>is_allowed_order\<close> reads the balance through \<open>accounts[order.account_name]\<close>, so it
  returns the table after that access together with its verdict. The balance is compared
  with the rounded product \<open>order.quantity * order.price\<close>. \<open>find_if(...) == end()\<close> is
  \<open>List.find ... = None\<close>.
\<close>

definition is_allowed_order :: "Order \<Rightarrow> account_table \<Rightarrow> book \<Rightarrow> bool \<times> account_table" where
  "is_allowed_order order accounts b =
     (if is_buy order
      then (dge (usd_balance (entry accounts (account_name order)))
                 (round_double (of_int (quantity order) * price order))
            \<and> List.find (\<lambda>x. account_name x = account_name order \<and> price x = price order)
                 (b ''sell'') = None,
            subscript accounts (account_name order))
      else (coin_balance (entry accounts (account_name order)) \<ge> quantity order
            \<and> List.find (\<lambda>x. account_name x = account_name order \<and> price x = price order)
                 (b ''buy'') = None,
            subscript accounts (account_name order)))"

text \<open>The program state: the three globals \<open>accounts\<close>, \<open>transactions\<close>, \<open>order_book\<close>.\<close>

record world =
  accounts :: account_table
  transactions :: "Transaction list"
  order_book :: book

definition match_order :: "(nat \<Rightarrow> int) \<Rightarrow> Order \<Rightarrow> world \<Rightarrow> Order \<times> world" where
  "match_order clk order w =
     (let side = (if is_buy order then ''sell'' else ''buy'');
          (order', side', accounts', transactions') =
             match_loop clk 0 order (order_book w side) (accounts w) (transactions w)
      in (order', \<lparr>accounts = accounts', transactions = transactions',
                   order_book = (order_book w)(side := side')\<rparr>))"

text \<open>
  \<open>get_last_order_id\<close>: \<open>abs\<close>, the increment and the product with the sign are \<open>int\<close>
  operations and wrap.
\<close>

definition get_last_order_id :: "bool \<Rightarrow> book \<Rightarrow> int" where
  "get_last_order_id isBuy b =
     (let factor = (if isBuy then 1 else - 1);
          last_order_id = fold (\<lambda>order last. max last (int32 \<bar>order_id order\<bar>))
                            (b (if isBuy then ''buy'' else ''sell'')) 0
      in int32 (factor * (if last_order_id = 0 then 1 else int32 (last_order_id + 1))))"

definition construct_order :: "string \<Rightarrow> string \<Rightarrow> int \<Rightarrow> rat \<Rightarrow> int \<Rightarrow> book \<Rightarrow> Order" where
  "construct_order name side qty prc ts b =
     \<lparr>order_id = get_last_order_id (side = ''buy'') b, account_name = name,
      is_buy = (side = ''buy''), quantity = qty, price = prc, timestamp = ts\<rparr>"

section \<open>Engine loop\<close>

text \<open>
  One iteration of the loop of \<open>matching_engine\<close>. A message is an \<open>Order\<close> or a string; the
  string is represented by what the loop makes of it after \<open>parse_input\<close> and
  \<open>convert_string_to_int\<close>: \<open>Cancel n\<close> for the tokens \<open>cancel\<close> and a text converted to
  \<open>n\<close>, \<open>Exit\<close>, or \<open>Ignored\<close> for any other text. The result is the new state and the lines
  written to the standard output.
\<close>

datatype MessageQueueData = OrderMsg Order | Cancel int | Exit | Ignored

definition process_order :: "(nat \<Rightarrow> int) \<Rightarrow> Order \<Rightarrow> world \<Rightarrow> world \<times> string list" where
  "process_order clk order w =
     (let (allowed, accounts') = is_allowed_order order (accounts w) (order_book w);
          w1 = w\<lparr>accounts := accounts'\<rparr>
      in if allowed
         then (let (order', w2) = match_order clk order w1
               in if quantity order' > 0
                  then (w2\<lparr>order_book := add_order order' (order_book w2)\<rparr>, [])
                  else (w2, []))
         else (w1, [''Order rejected'']))"

fun engine_step :: "(nat \<Rightarrow> int) \<Rightarrow> MessageQueueData \<Rightarrow> world \<Rightarrow> world \<times> string list" where
  "engine_step clk (OrderMsg order) w = process_order clk order w"
| "engine_step clk (Cancel n) w = (w\<lparr>order_book := remove_order n (order_book w)\<rparr>, [])"
| "engine_step clk Exit w = (w, [])"
| "engine_step clk Ignored w = (w, [])"

text \<open>
  The loop of \<open>matching_engine\<close> over the messages \<open>pop\<close> returns, in that order; \<open>clk i\<close> is
  the clock during the \<open>i\<close>-th message. The loop leaves at \<open>exit\<close>; when the messages are
  used up it waits in \<open>pop\<close>, and the result is the state it waits in.
\<close>

fun matching_engine ::
  "(nat \<Rightarrow> nat \<Rightarrow> int) \<Rightarrow> MessageQueueData list \<Rightarrow> world \<Rightarrow> world \<times> string list" where
  "matching_engine clk [] w = (w, [])"
| "matching_engine clk (Exit # msgs) w = (w, [])"
| "matching_engine clk (msg # msgs) w =
     (let (w1, out1) = engine_step (clk 0) msg w;
          (w2, out2) = matching_engine (\<lambda>i. clk (Suc i)) msgs w1
      in (w2, out1 @ out2))"

text \<open>
  \<open>setup()\<close>: three accounts and four resting orders; \<open>clk 0\<close>, ..., \<open>clk 3\<close> are the four
  readings of the clock.
\<close>

definition setup_globals :: "(nat \<Rightarrow> int) \<Rightarrow> world" where
  "setup_globals clk =
     (let accts = [''alice'' \<mapsto> \<lparr>usd_balance = Finite 6000, coin_balance = 43540\<rparr>,
                   ''bob'' \<mapsto> \<lparr>usd_balance = Finite 300, coin_balance = 2000\<rparr>,
                   ''charlie'' \<mapsto> \<lparr>usd_balance = Finite 1235, coin_balance = 1000\<rparr>];
          b0 = empty_book;
          order1 = construct_order ''alice'' ''buy'' 1 20.5 (clk 0) b0;
          b1 = add_order order1 b0;
          order2 = construct_order ''bob'' ''buy'' 10 22.5 (clk 1) b1;
          b2 = add_order order2 b1;
          order3 = construct_order ''charlie'' ''sell'' 8 23.5 (clk 2) b2;
          b3 = add_order order3 b2;
          order4 = construct_order ''charlie'' ''sell'' 8 25.5 (clk 3) b3;
          b4 = add_order order4 b3
      in \<lparr>accounts = accts, transactions = [], order_book = b4\<rparr>)"

section \<open>Notions of the specification\<close>

text \<open>The ids resting in the book, on either side.\<close>

definition book_ids :: "book \<Rightarrow> int set" where
  "book_ids b = order_id ` (set (b ''buy'') \<union> set (b ''sell''))"

text \<open>
  The matching walk in the words of the specification. \<open>crosses\<close> is condition (a),
  \<open>continues\<close> the conjunction of (a), (b) and (c); the buyer of a fill is the aggressor
  when it buys and the resting order otherwise.
\<close>

definition crosses :: "Order \<Rightarrow> Order \<Rightarrow> bool" where
  "crosses aggr resting =
     (if is_buy aggr then price resting \<le> price aggr else price resting \<ge> price aggr)"

definition continues :: "Order \<Rightarrow> Order \<Rightarrow> bool" where
  "continues aggr resting =
     (crosses aggr resting \<and> quantity aggr > 0 \<and> account_name resting \<noteq> account_name aggr)"

definition buyer_of :: "Order \<Rightarrow> Order \<Rightarrow> string" where
  "buyer_of aggr resting = (if is_buy aggr then account_name aggr else account_name resting)"

definition seller_of :: "Order \<Rightarrow> Order \<Rightarrow> string" where
  "seller_of aggr resting = (if is_buy aggr then account_name resting else account_name aggr)"

definition side_name :: "Order \<Rightarrow> string" where
  "side_name aggr = (if is_buy aggr then ''buy'' else ''sell'')"

definition opposite :: "Order \<Rightarrow> string" where
  "opposite aggr = (if is_buy aggr then ''sell'' else ''buy'')"

text \<open>
  \<open>walk clk k aggr side accts txs r\<close>: walking \<open>side\<close> from its best order with the aggressor
  \<open>aggr\<close> ends in \<open>r\<close>, the aggressor with its remaining quantity, the side, the balances
  and the log. A full fill settles the resting quantity at the resting price, drops the
  resting order and goes on with the decremented aggressor; a partial fill settles the
  aggressor's remaining quantity at the resting price, puts the resting order back with
  its quantity reduced and every other field kept, and stops.
\<close>

inductive walk ::
  "(nat \<Rightarrow> int) \<Rightarrow> nat \<Rightarrow> Order \<Rightarrow> Order list \<Rightarrow> account_table \<Rightarrow> Transaction list \<Rightarrow>
   Order \<times> Order list \<times> account_table \<times> Transaction list \<Rightarrow> bool" where
  walk_empty: "walk clk k aggr [] accts txs (aggr, [], accts, txs)"
| walk_halt:
    "\<not> continues aggr t \<Longrightarrow> walk clk k aggr (t # rest) accts txs (aggr, t # rest, accts, txs)"
| walk_full:
    "continues aggr t \<Longrightarrow> quantity t \<le> quantity aggr \<Longrightarrow>
     settle_accounts (buyer_of aggr t) (seller_of aggr t) (quantity t) (price t) (side_name aggr)
       (clk k) accts txs = (accts', txs') \<Longrightarrow>
     walk clk (Suc k) (aggr\<lparr>quantity := quantity aggr - quantity t\<rparr>) rest accts' txs' r \<Longrightarrow>
     walk clk k aggr (t # rest) accts txs r"
| walk_partial:
    "continues aggr t \<Longrightarrow> quantity aggr < quantity t \<Longrightarrow>
     settle_accounts (buyer_of aggr t) (seller_of aggr t) (quantity aggr) (price t) (side_name aggr)
       (clk k) accts txs = (accts', txs') \<Longrightarrow>
     walk clk k aggr (t # rest) accts txs
       (aggr\<lparr>quantity := 0\<rparr>, emplace (t\<lparr>quantity := quantity t - quantity aggr\<rparr>) rest,
        accts', txs')"

text \<open>
  Price-time priority: on the buy side the higher price comes first, on the sell side the
  lower price, and among equal prices the earlier timestamp. A side is ordered when its
  list is sorted by that priority and every order on it is of that side.
\<close>

definition priority :: "bool \<Rightarrow> Order \<Rightarrow> Order \<Rightarrow> bool" where
  "priority buy_side a b =
     (if buy_side
      then price a > price b \<or> (price a = price b \<and> timestamp a \<le> timestamp b)
      else price a < price b \<or> (price a = price b \<and> timestamp a \<le> timestamp b))"

definition side_ordered :: "bool \<Rightarrow> Order list \<Rightarrow> bool" where
  "side_ordered buy_side xs =
     (sorted_wrt (priority buy_side) xs \<and> (\<forall>x\<in>set xs. is_buy x = buy_side))"

definition book_ordered :: "book \<Rightarrow> bool" where
  "book_ordered b = (side_ordered True (b ''buy'') \<and> side_ordered False (b ''sell''))"

text \<open>The maximum absolute id resting on a side, 0 when the side is empty.\<close>

definition max_abs_id :: "Order list \<Rightarrow> int" where
  "max_abs_id side = Max (insert 0 ((\<lambda>x. \<bar>order_id x\<bar>) ` set side))"




text \<open>An order of account \<open>name\<close> rests on the side at exactly the price \<open>p\<close>.\<close>

definition rests_at :: "Order list \<Rightarrow> string \<Rightarrow> rat \<Rightarrow> bool" where
  "rests_at side name p = (\<exists>x\<in>set side. account_name x = name \<and> price x = p)"

text \<open>
  The states the program reaches: it starts with an empty transaction log (\<open>setup()\<close> fills
  accounts and book only), the engine processes one message after the other, and between
  messages the command thread may create, delete, fund or debit accounts, which is any
  change of the account table.
\<close>

inductive reachable :: "world \<Rightarrow> bool" where
  start: "transactions w = [] \<Longrightarrow> reachable w"
| engine: "reachable w \<Longrightarrow> reachable (fst (engine_step clk msg w))"
| account_command: "reachable w \<Longrightarrow> reachable (w\<lparr>accounts := accts\<rparr>)"

text \<open>No transaction of the log has the same account as buyer and as seller.\<close>

definition no_self_trade :: "Transaction list \<Rightarrow> bool" where
  "no_self_trade txs = (\<forall>t\<in>set txs. buyer t \<noteq> seller t)"

text \<open>
  A rational number is representable when rounding leaves it as it is, and an integer is
  in range when it is a value of the 32-bit \<open>int\<close>.
\<close>

definition representable :: "rat \<Rightarrow> bool" where
  "representable x = (round_double x = Finite x)"

definition in_int32 :: "int \<Rightarrow> bool" where
  "in_int32 x = (- 2147483648 \<le> x \<and> x \<le> 2147483647)"


section \<open>Example inputs\<close>

text \<open>Charlie sells 10 at 22.50: this takes bob's whole bid of \<open>setup()\<close>.\<close>

definition sell_10_at_22_5 :: Order where
  "sell_10_at_22_5 =
     \<lparr>order_id = - 3, account_name = ''charlie'', is_buy = False, quantity = 10,
      price = 22.5, timestamp = 4\<rparr>"

text \<open>The four orders resting after \<open>setup()\<close> when the clock reads 0, 1, 2, 3.\<close>

definition bob_bids_22_5 :: Order where
  "bob_bids_22_5 = \<lparr>order_id = 2, account_name = ''bob'', is_buy = True, quantity = 10,
      price = 22.5, timestamp = 1\<rparr>"

definition alice_bids_20_5 :: Order where
  "alice_bids_20_5 = \<lparr>order_id = 1, account_name = ''alice'', is_buy = True, quantity = 1,
      price = 20.5, timestamp = 0\<rparr>"

definition charlie_asks_23_5 :: Order where
  "charlie_asks_23_5 = \<lparr>order_id = - 1, account_name = ''charlie'', is_buy = False,
      quantity = 8, price = 23.5, timestamp = 2\<rparr>"

definition charlie_asks_25_5 :: Order where
  "charlie_asks_25_5 = \<lparr>order_id = - 2, account_name = ''charlie'', is_buy = False,
      quantity = 8, price = 25.5, timestamp = 3\<rparr>"

text \<open>
  Orders submitted to that state: the two scenarios of the specification (a sell of 5 at 20
  and a buy of 12 at 23.50, here by accounts that exist), an ask of bob between charlie's
  two asks and a bid of charlie above all three, orders of the account \<open>ghost\<close>, which is
  not in the table, and an ask and a bid of alice at the same price.
\<close>

definition sell_5_at_20 :: Order where
  "sell_5_at_20 = \<lparr>order_id = - 3, account_name = ''charlie'', is_buy = False, quantity = 5,
      price = 20, timestamp = 4\<rparr>"

definition buy_12_at_23_5 :: Order where
  "buy_12_at_23_5 = \<lparr>order_id = 3, account_name = ''alice'', is_buy = True, quantity = 12,
      price = 23.5, timestamp = 4\<rparr>"

definition bob_sells_at_24 :: Order where
  "bob_sells_at_24 = \<lparr>order_id = - 3, account_name = ''bob'', is_buy = False, quantity = 5,
      price = 24, timestamp = 4\<rparr>"

definition charlie_buys_at_26 :: Order where
  "charlie_buys_at_26 = \<lparr>order_id = 3, account_name = ''charlie'', is_buy = True, quantity = 5,
      price = 26, timestamp = 6\<rparr>"

definition ghost_buys_at_30 :: Order where
  "ghost_buys_at_30 = \<lparr>order_id = 3, account_name = ''ghost'', is_buy = True, quantity = 5,
      price = 30, timestamp = 4\<rparr>"

definition ghost_buys_at_0 :: Order where
  "ghost_buys_at_0 = \<lparr>order_id = 3, account_name = ''ghost'', is_buy = True, quantity = 5,
      price = 0, timestamp = 4\<rparr>"

definition alice_sells_at_30 :: Order where
  "alice_sells_at_30 = \<lparr>order_id = - 3, account_name = ''alice'', is_buy = False, quantity = 2,
      price = 30, timestamp = 4\<rparr>"

definition alice_buys_at_30 :: Order where
  "alice_buys_at_30 = \<lparr>order_id = 3, account_name = ''alice'', is_buy = True, quantity = 1,
      price = 30, timestamp = 6\<rparr>"

text \<open>The state of \<open>setup()\<close> after bob's ask, and after alice's ask, has been processed.\<close>

definition with_bob_ask :: world where
  "with_bob_ask = fst (process_order (\<lambda>k. 5) bob_sells_at_24 (setup_globals (\<lambda>k. int k)))"

definition with_alice_ask :: world where
  "with_alice_ask = fst (process_order (\<lambda>k. 5) alice_sells_at_30 (setup_globals (\<lambda>k. int k)))"


definition cent :: rat where
  "cent = 5764607523034235 / 2 ^ 59"

definition three_cents :: rat where
  "three_cents = 8646911284551352 / 2 ^ 58"

definition dave_accounts :: account_table where
  "dave_accounts = [''dave'' \<mapsto> \<lparr>usd_balance = Finite three_cents, coin_balance = 0\<rparr>]"

definition dave_bids_3_at_cent :: Order where
  "dave_bids_3_at_cent = \<lparr>order_id = 1, account_name = ''dave'', is_buy = True, quantity = 3,
      price = cent, timestamp = 4\<rparr>"

definition int_max_book :: book where
  "int_max_book = empty_book(''buy'' := [bob_bids_22_5\<lparr>order_id := 2147483647\<rparr>])"

section \<open>Properties\<close>

subsection \<open>Evaluating the arithmetic\<close>

declare bit_length.simps [simp del]

lemma bit_length_0 [simp]: "bit_length 0 = 0"
  by (simp add: bit_length.simps)

lemma bit_length_Suc_0 [simp]: "bit_length (Suc 0) = 1"
  by (simp add: bit_length.simps)

lemma bit_length_numeral [simp]:
  "bit_length (numeral k) = Suc (bit_length (numeral k div 2))"
  by (subst bit_length.simps) simp

lemma floor_rat_numeral [simp]:
  "\<lfloor>numeral a / numeral b :: rat\<rfloor> = numeral a div numeral b"
  "\<lfloor>- (numeral a / numeral b) :: rat\<rfloor> = - numeral a div numeral b"
  using floor_divide_of_int_eq [of "numeral a" "numeral b", where ?'a = rat]
    floor_divide_of_int_eq [of "- numeral a" "numeral b", where ?'a = rat]
  by simp_all

lemma ceiling_rat_numeral [simp]:
  "\<lceil>numeral a / numeral b :: rat\<rceil> = - (- numeral a div numeral b)"
  by (simp add: ceiling_def)

lemmas round_double_eval = round_double_def ilog2_def pow2_def round_half_even_def Let_def

lemma int32_id: "in_int32 x \<Longrightarrow> int32 x = x"
  by (simp add: int32_def in_int32_def)

lemma round_double_0 [simp]: "round_double 0 = Finite 0"
  by (simp add: round_double_def)

text \<open>
  The roundings the examples below meet. \<open>cent\<close> and \<open>three_cents\<close> are the doubles that
  the texts \<open>0.01\<close> and \<open>0.03\<close> are read as; three times \<open>cent\<close> lies half a unit in the last
  place above \<open>three_cents\<close> and rounds to it.
\<close>

lemma round_double_examples:
  "round_double 30 = Finite 30"
  "round_double 150 = Finite 150"
  "round_double (1 / 100) = Finite cent"
  "round_double (3 / 100) = Finite three_cents"
  "round_double (3 * cent) = Finite three_cents"
  "three_cents < 3 * cent"
  "round_double (47 / 2) = Finite (47 / 2)"
  "round_double (10000000000000000 - 47 / 2) = Finite 9999999999999976"
  "round_double (1235 + 47 / 2) = Finite (2517 / 2)"
  "round_double (225 / 2) = Finite (225 / 2)"
  "round_double (375 / 2) = Finite (375 / 2)"
  "round_double (2695 / 2) = Finite (2695 / 2)"
  by (simp_all add: round_double_eval cent_def three_cents_def)

subsection \<open>The book after \<open>setup()\<close>\<close>

lemma setup_buy:
  "order_book (setup_globals clk) ''buy'' =
     [\<lparr>order_id = 2, account_name = ''bob'', is_buy = True, quantity = 10,
        price = 22.5, timestamp = clk 1\<rparr>,
      \<lparr>order_id = 1, account_name = ''alice'', is_buy = True, quantity = 1,
        price = 20.5, timestamp = clk 0\<rparr>]"
  by (simp add: setup_globals_def Let_def construct_order_def add_order_def empty_book_def
      get_last_order_id_def OrderComparator_def) (simp add: int32_def)

lemma setup_sell:
  "order_book (setup_globals clk) ''sell'' =
     [\<lparr>order_id = - 1, account_name = ''charlie'', is_buy = False, quantity = 8,
        price = 23.5, timestamp = clk 2\<rparr>,
      \<lparr>order_id = - 2, account_name = ''charlie'', is_buy = False, quantity = 8,
        price = 25.5, timestamp = clk 3\<rparr>]"
  by (simp add: setup_globals_def Let_def construct_order_def add_order_def empty_book_def
      get_last_order_id_def OrderComparator_def) (simp add: int32_def)

lemma setup_accounts:
  "accounts (setup_globals clk) =
     [''alice'' \<mapsto> \<lparr>usd_balance = Finite 6000, coin_balance = 43540\<rparr>,
      ''bob'' \<mapsto> \<lparr>usd_balance = Finite 300, coin_balance = 2000\<rparr>,
      ''charlie'' \<mapsto> \<lparr>usd_balance = Finite 1235, coin_balance = 1000\<rparr>]"
  by (simp add: setup_globals_def Let_def)

lemma setup_transactions: "transactions (setup_globals clk) = []"
  by (simp add: setup_globals_def Let_def)

lemma setup_book_named:
  "order_book (setup_globals (\<lambda>k. int k)) ''buy'' = [bob_bids_22_5, alice_bids_20_5]"
  "order_book (setup_globals (\<lambda>k. int k)) ''sell'' = [charlie_asks_23_5, charlie_asks_25_5]"
  by (simp_all add: setup_buy setup_sell bob_bids_22_5_def alice_bids_20_5_def
      charlie_asks_23_5_def charlie_asks_25_5_def)

subsection \<open>Cancellation\<close>

lemma erase_found_none: "\<forall>x\<in>set xs. \<not> P x \<Longrightarrow> erase_found P xs = xs"
  by (induction xs) auto

lemma remove_order_absent:
  assumes "oid \<notin> book_ids b"
  shows "remove_order oid b = b"
proof -
  have "erase_found (\<lambda>x. order_id x = oid) (b side) = b side"
    if "side = ''buy'' \<or> side = ''sell''" for side
    using assms that by (intro erase_found_none) (auto simp: book_ids_def)
  then show ?thesis
    by (simp add: remove_order_def Let_def)
qed

lemma remove_order_absent_iter: "oid \<notin> book_ids b \<Longrightarrow> (remove_order oid ^^ n) b = b"
  by (induction n) (simp_all add: remove_order_absent)

text \<open>
  The ids \<open>get_last_order_id\<close> mints are positive on the buy side and negative on the sell
  side. \<open>remove_order\<close> looks for a negative id on the buy side and for a positive id on the
  sell side, so on a book that follows the minting convention it removes nothing, whatever
  id it is given.
\<close>

lemma remove_order_sign_convention:
  assumes "\<forall>x\<in>set (b ''buy''). 0 < order_id x" and "\<forall>x\<in>set (b ''sell''). order_id x < 0"
  shows "remove_order oid b = b"
proof -
  have "erase_found (\<lambda>x. order_id x = oid) (b ''buy'') = b ''buy''" if "oid < 0"
    using assms(1) that by (intro erase_found_none) auto
  moreover have "erase_found (\<lambda>x. order_id x = oid) (b ''sell'') = b ''sell''" if "0 < oid"
    using assms(2) that by (intro erase_found_none) auto
  ultimately show ?thesis
    by (simp add: remove_order_def Let_def)
qed

text \<open>
  Claim C2, evaluated on the code. The claim: for a nonzero id, \<open>remove\<close> selects the buy side
  when the id is positive and the sell side when it is negative, and removes the order
  with that id there. On the book of \<open>setup()\<close>, where alice's buy order rests with id 1,
  \<open>remove_order 1\<close> searches the sell side and the buy side keeps the order.
\<close>

theorem remove_order_positive_id_keeps_buy_order:
  "remove_order 1 (order_book (setup_globals (\<lambda>k. int k))) ''buy'' =
     [\<lparr>order_id = 2, account_name = ''bob'', is_buy = True, quantity = 10,
        price = 22.5, timestamp = 1\<rparr>,
      \<lparr>order_id = 1, account_name = ''alice'', is_buy = True, quantity = 1,
        price = 20.5, timestamp = 0\<rparr>]"
  by (simp add: remove_order_def Let_def setup_buy)

text \<open>
  Claim C9. A cancel of id 0 leaves the book as it is; a cancel of an id that rests on
  neither side leaves the book as it is, and so does any number of repeated cancels of
  that id: once an id is gone from the book, every further cancel of it is a no-op. The
  engine prints nothing for such a cancel and changes no other part of the state.
\<close>

theorem cancel_noop:
  "remove_order 0 b = b \<and>
   engine_step clk (Cancel 0) w = (w, []) \<and>
   (oid \<notin> book_ids b \<longrightarrow> remove_order oid b = b \<and> (\<forall>n. (remove_order oid ^^ n) b = b)) \<and>
   (oid \<notin> book_ids (order_book w) \<longrightarrow> engine_step clk (Cancel oid) w = (w, []))"
proof -
  have "remove_order 0 b' = b'" for b'
    by (simp add: remove_order_def)
  then show ?thesis
    by (simp add: remove_order_absent remove_order_absent_iter)
qed

theorem cancel_noop_witness:
  "remove_order 0 (order_book (setup_globals (\<lambda>k. int k))) = order_book (setup_globals (\<lambda>k. int k)) \<and>
   7 \<notin> book_ids (order_book (setup_globals (\<lambda>k. int k))) \<and>
   remove_order 7 (order_book (setup_globals (\<lambda>k. int k))) = order_book (setup_globals (\<lambda>k. int k)) \<and>
   (remove_order 7 ^^ 3) (order_book (setup_globals (\<lambda>k. int k))) =
     order_book (setup_globals (\<lambda>k. int k)) \<and>
   engine_step (\<lambda>k. 5) (Cancel 7) (setup_globals (\<lambda>k. int k)) = (setup_globals (\<lambda>k. int k), [])"
proof -
  have absent: "7 \<notin> book_ids (order_book (setup_globals (\<lambda>k. int k)))"
    by (simp add: book_ids_def setup_buy setup_sell)
  from cancel_noop [of "order_book (setup_globals (\<lambda>k. int k))" "\<lambda>k. 5"
      "setup_globals (\<lambda>k. int k)" 7] absent
  show ?thesis by blast
qed

subsection \<open>The matching walk\<close>

lemma settle_accounts_log:
  "snd (settle_accounts b s q p ag now accts txs) =
     txs @ [\<lparr>txn_id = int32 (int32 (int (length txs)) + 1), txn_quantity = q, txn_price = p,
             txn_timestamp = now, buyer = b, seller = s, aggressor = ag\<rparr>]"
  by (simp add: settle_accounts_def Let_def)

lemma updatedOrder_eq:
  "\<lparr>order_id = order_id t, account_name = account_name t, is_buy = is_buy t,
    quantity = q, price = price t, timestamp = timestamp t\<rparr> = t\<lparr>quantity := q\<rparr>"
  by simp

lemma match_loop_halt:
  "\<not> continues aggr t \<Longrightarrow> match_loop clk k aggr (t # rest) accts txs = (aggr, t # rest, accts, txs)"
  by (auto simp: continues_def crosses_def)

lemma continues_code:
  "continues aggr t =
     ((if is_buy aggr then price t \<le> price aggr else price t \<ge> price aggr)
       \<and> quantity aggr > 0 \<and> account_name aggr \<noteq> account_name t)"
  by (auto simp: continues_def crosses_def)

lemma match_loop_full:
  assumes "continues aggr t" and "quantity t \<le> quantity aggr"
    and "settle_accounts (buyer_of aggr t) (seller_of aggr t) (quantity t) (price t) (side_name aggr)
       (clk k) accts txs = (accts', txs')"
  shows "match_loop clk k aggr (t # rest) accts txs =
         match_loop clk (Suc k) (aggr\<lparr>quantity := quantity aggr - quantity t\<rparr>) rest accts' txs'"
proof (cases "is_buy aggr")
  case True
  with assms show ?thesis
    by (simp add: continues_code buyer_of_def seller_of_def side_name_def Let_def updatedOrder_eq)
next
  case False
  with assms show ?thesis
    by (simp add: continues_code buyer_of_def seller_of_def side_name_def Let_def updatedOrder_eq)
qed

lemma match_loop_partial:
  assumes "continues aggr t" and "quantity aggr < quantity t"
    and "settle_accounts (buyer_of aggr t) (seller_of aggr t) (quantity aggr) (price t) (side_name aggr)
       (clk k) accts txs = (accts', txs')"
  shows "match_loop clk k aggr (t # rest) accts txs =
         (aggr\<lparr>quantity := 0\<rparr>, emplace (t\<lparr>quantity := quantity t - quantity aggr\<rparr>) rest,
          accts', txs')"
proof (cases "is_buy aggr")
  case True
  with assms show ?thesis
    by (simp add: continues_code buyer_of_def seller_of_def side_name_def Let_def updatedOrder_eq)
next
  case False
  with assms show ?thesis
    by (simp add: continues_code buyer_of_def seller_of_def side_name_def Let_def updatedOrder_eq)
qed

lemma walk_match_loop: "walk clk k aggr side accts txs (match_loop clk k aggr side accts txs)"
proof (induction side arbitrary: k aggr accts txs)
  case Nil
  show ?case by (simp add: walk_empty)
next
  case (Cons t rest)
  show ?case
  proof (cases "continues aggr t")
    case False
    then show ?thesis by (simp add: match_loop_halt walk_halt del: match_loop.simps)
  next
    case go: True
    show ?thesis
    proof (cases "quantity t \<le> quantity aggr")
      case True
      obtain accts' txs' where s: "settle_accounts (buyer_of aggr t) (seller_of aggr t) (quantity t)
          (price t) (side_name aggr) (clk k) accts txs = (accts', txs')"
        by (meson surj_pair)
      have "match_loop clk k aggr (t # rest) accts txs =
            match_loop clk (Suc k) (aggr\<lparr>quantity := quantity aggr - quantity t\<rparr>) rest accts' txs'"
        using go True s by (rule match_loop_full)
      moreover have "walk clk k aggr (t # rest) accts txs
            (match_loop clk (Suc k) (aggr\<lparr>quantity := quantity aggr - quantity t\<rparr>) rest accts' txs')"
        using go True s Cons.IH by (rule walk_full)
      ultimately show ?thesis by (simp del: match_loop.simps)
    next
      case False
      then have lt: "quantity aggr < quantity t" by simp
      obtain accts' txs' where s: "settle_accounts (buyer_of aggr t) (seller_of aggr t) (quantity aggr)
          (price t) (side_name aggr) (clk k) accts txs = (accts', txs')"
        by (meson surj_pair)
      have "match_loop clk k aggr (t # rest) accts txs =
            (aggr\<lparr>quantity := 0\<rparr>, emplace (t\<lparr>quantity := quantity t - quantity aggr\<rparr>) rest,
             accts', txs')"
        using go lt s by (rule match_loop_partial)
      moreover have "walk clk k aggr (t # rest) accts txs
            (aggr\<lparr>quantity := 0\<rparr>, emplace (t\<lparr>quantity := quantity t - quantity aggr\<rparr>) rest,
             accts', txs')"
        using go lt s by (rule walk_partial)
      ultimately show ?thesis by (simp del: match_loop.simps)
    qed
  qed
qed

lemma walk_deterministic:
  "walk clk k aggr side accts txs r \<Longrightarrow> r = match_loop clk k aggr side accts txs"
proof (induction rule: walk.induct)
  case (walk_empty clk k aggr accts txs)
  show ?case by simp
next
  case (walk_halt aggr t clk k rest accts txs)
  then show ?case by (simp add: match_loop_halt del: match_loop.simps)
next
  case (walk_full aggr t clk k accts txs accts' txs' rest r)
  then show ?case by (simp add: match_loop_full del: match_loop.simps)
next
  case (walk_partial aggr t clk k accts txs accts' txs' rest)
  then show ?case by (simp add: match_loop_partial del: match_loop.simps)
qed

lemma match_order_eq:
  "match_order clk order w =
     (let r = match_loop clk 0 order (order_book w (opposite order)) (accounts w) (transactions w)
      in (fst r, \<lparr>accounts = fst (snd (snd r)), transactions = snd (snd (snd r)),
                   order_book = (order_book w)(opposite order := fst (snd r))\<rparr>))"
  by (simp add: match_order_def opposite_def Let_def case_prod_beta)

lemma process_order_eq:
  "process_order clk order w =
     (let w1 = w\<lparr>accounts := subscript (accounts w) (account_name order)\<rparr>
      in if fst (is_allowed_order order (accounts w) (order_book w))
         then (let r = match_order clk order w1
               in if quantity (fst r) > 0
                  then ((snd r)\<lparr>order_book := add_order (fst r) (order_book (snd r))\<rparr>, [])
                  else (snd r, []))
         else (w1, [''Order rejected'']))"
  by (simp add: process_order_def is_allowed_order_def Let_def case_prod_beta)

lemma with_alice_ask_book:
  "order_book with_alice_ask ''sell'' = [charlie_asks_23_5, charlie_asks_25_5, alice_sells_at_30]"
  "order_book with_alice_ask ''buy'' = order_book (setup_globals (\<lambda>k. int k)) ''buy''"
  "accounts with_alice_ask = accounts (setup_globals (\<lambda>k. int k))"
  by (simp_all add: with_alice_ask_def alice_sells_at_30_def process_order_eq is_allowed_order_def
      match_order_eq opposite_def Let_def setup_buy setup_sell setup_accounts setup_transactions
      entry_def add_order_def OrderComparator_def charlie_asks_23_5_def charlie_asks_25_5_def
      subscript_def fun_upd_idem)

text \<open>
  Claim C1. \<open>match_order\<close> walks the side opposite to the aggressor from its first order,
  which is the best in priority on an ordered book, exactly as the walk of the
  specification does: it goes on only while the resting order's price crosses the
  aggressor's limit, the aggressor has quantity left and the two accounts differ; a resting
  order not larger than the aggressor is settled in full at its own price, removed, and
  the aggressor's quantity decremented by it; a larger one is settled for the aggressor's
  remaining quantity at the resting price and put back with the same id, account, side,
  price and timestamp and the quantity reduced, the aggressor is left with quantity 0, and
  the walk stops. The result of \<open>match_order\<close> is the one result of that walk.
\<close>

theorem match_order_walk:
  "walk clk 0 order (order_book w (opposite order)) (accounts w) (transactions w)
     (order', side', accts', txs') \<longleftrightarrow>
   match_order clk order w =
     (order', \<lparr>accounts = accts', transactions = txs',
               order_book = (order_book w)(opposite order := side')\<rparr>)"
proof
  assume "walk clk 0 order (order_book w (opposite order)) (accounts w) (transactions w)
     (order', side', accts', txs')"
  then have "match_loop clk 0 order (order_book w (opposite order)) (accounts w) (transactions w) =
     (order', side', accts', txs')"
    by (rule walk_deterministic [symmetric])
  then show "match_order clk order w =
     (order', \<lparr>accounts = accts', transactions = txs',
               order_book = (order_book w)(opposite order := side')\<rparr>)"
    by (simp add: match_order_eq Let_def)
next
  let ?r = "match_loop clk 0 order (order_book w (opposite order)) (accounts w) (transactions w)"
  assume "match_order clk order w =
     (order', \<lparr>accounts = accts', transactions = txs',
               order_book = (order_book w)(opposite order := side')\<rparr>)"
  then have "fst ?r = order'" "fst (snd (snd ?r)) = accts'" "snd (snd (snd ?r)) = txs'"
    and "(order_book w)(opposite order := fst (snd ?r)) = (order_book w)(opposite order := side')"
    by (simp_all add: match_order_eq Let_def)
  moreover from this(4) have "fst (snd ?r) = side'"
    by (rule fun_upd_eqD)
  ultimately have "?r = (order', side', accts', txs')"
    by (metis prod.collapse)
  then show "walk clk 0 order (order_book w (opposite order)) (accounts w) (transactions w)
     (order', side', accts', txs')"
    using walk_match_loop [of clk 0 order "order_book w (opposite order)" "accounts w" "transactions w"]
    by simp
qed

theorem match_order_walk_witness:
  "walk (\<lambda>k. 5) 0 sell_5_at_20
     (order_book (setup_globals (\<lambda>k. int k)) (opposite sell_5_at_20))
     (accounts (setup_globals (\<lambda>k. int k))) (transactions (setup_globals (\<lambda>k. int k)))
     (sell_5_at_20\<lparr>quantity := 0\<rparr>,
      [bob_bids_22_5\<lparr>quantity := 5\<rparr>, alice_bids_20_5],
      fst (settle_accounts ''bob'' ''charlie'' 5 22.5 ''sell'' 5
             (accounts (setup_globals (\<lambda>k. int k))) []),
      [\<lparr>txn_id = 1, txn_quantity = 5, txn_price = 22.5, txn_timestamp = 5,
        buyer = ''bob'', seller = ''charlie'', aggressor = ''sell''\<rparr>]) \<and>
   walk (\<lambda>k. 5) 0 buy_12_at_23_5
     (order_book (setup_globals (\<lambda>k. int k)) (opposite buy_12_at_23_5))
     (accounts (setup_globals (\<lambda>k. int k))) (transactions (setup_globals (\<lambda>k. int k)))
     (buy_12_at_23_5\<lparr>quantity := 4\<rparr>,
      [charlie_asks_25_5],
      fst (settle_accounts ''alice'' ''charlie'' 8 23.5 ''buy'' 5
             (accounts (setup_globals (\<lambda>k. int k))) []),
      [\<lparr>txn_id = 1, txn_quantity = 8, txn_price = 23.5, txn_timestamp = 5,
        buyer = ''alice'', seller = ''charlie'', aggressor = ''buy''\<rparr>])"
proof -
  have "match_order (\<lambda>k. 5) sell_5_at_20 (setup_globals (\<lambda>k. int k)) =
     (sell_5_at_20\<lparr>quantity := 0\<rparr>,
      \<lparr>accounts = fst (settle_accounts ''bob'' ''charlie'' 5 22.5 ''sell'' 5
             (accounts (setup_globals (\<lambda>k. int k))) []),
       transactions = [\<lparr>txn_id = 1, txn_quantity = 5, txn_price = 22.5, txn_timestamp = 5,
        buyer = ''bob'', seller = ''charlie'', aggressor = ''sell''\<rparr>],
       order_book = (order_book (setup_globals (\<lambda>k. int k)))
         (opposite sell_5_at_20 := [bob_bids_22_5\<lparr>quantity := 5\<rparr>, alice_bids_20_5])\<rparr>)"
    by (simp add: match_order_eq Let_def opposite_def sell_5_at_20_def setup_book_named
        setup_transactions bob_bids_22_5_def alice_bids_20_5_def case_prod_beta
        settle_accounts_log OrderComparator_def) (simp add: int32_def)
  moreover have "match_order (\<lambda>k. 5) buy_12_at_23_5 (setup_globals (\<lambda>k. int k)) =
     (buy_12_at_23_5\<lparr>quantity := 4\<rparr>,
      \<lparr>accounts = fst (settle_accounts ''alice'' ''charlie'' 8 23.5 ''buy'' 5
             (accounts (setup_globals (\<lambda>k. int k))) []),
       transactions = [\<lparr>txn_id = 1, txn_quantity = 8, txn_price = 23.5, txn_timestamp = 5,
        buyer = ''alice'', seller = ''charlie'', aggressor = ''buy''\<rparr>],
       order_book = (order_book (setup_globals (\<lambda>k. int k)))
         (opposite buy_12_at_23_5 := [charlie_asks_25_5])\<rparr>)"
    by (simp add: match_order_eq Let_def opposite_def buy_12_at_23_5_def setup_book_named
        setup_transactions charlie_asks_23_5_def charlie_asks_25_5_def case_prod_beta
        settle_accounts_log) (simp add: int32_def)
  ultimately show ?thesis
    using match_order_walk [of "\<lambda>k. 5" sell_5_at_20 "setup_globals (\<lambda>k. int k)"]
      match_order_walk [of "\<lambda>k. 5" buy_12_at_23_5 "setup_globals (\<lambda>k. int k)"]
    by blast
qed

subsection \<open>Price-time priority\<close>

lemma set_emplace: "set (emplace x xs) = insert x (set xs)"
  by (induction xs) auto

lemma priority_trans: "priority s a b \<Longrightarrow> priority s b c \<Longrightarrow> priority s a c"
  by (auto simp: priority_def split: if_splits)

lemma comparator_priority: "is_buy x = s \<Longrightarrow> OrderComparator x y \<Longrightarrow> priority s x y"
  by (auto simp: priority_def OrderComparator_def split: if_splits)

lemma not_comparator_priority: "is_buy x = s \<Longrightarrow> \<not> OrderComparator x y \<Longrightarrow> priority s y x"
  by (auto simp: priority_def OrderComparator_def split: if_splits)

lemma side_ordered_emplace:
  assumes "side_ordered s xs" and "is_buy x = s"
  shows "side_ordered s (emplace x xs)"
  using assms(1)
proof (induction xs)
  case Nil
  with assms(2) show ?case by (simp add: side_ordered_def)
next
  case (Cons y ys)
  from Cons.prems have tail: "side_ordered s ys" and below: "\<forall>z\<in>set ys. priority s y z"
    and tags: "is_buy y = s"
    by (simp_all add: side_ordered_def)
  show ?case
  proof (cases "OrderComparator x y")
    case True
    then have xy: "priority s x y" using assms(2) by (rule comparator_priority [rotated])
    then have "\<forall>z\<in>set ys. priority s x z" using below priority_trans by blast
    with xy Cons.prems assms(2) True show ?thesis by (simp add: side_ordered_def)
  next
    case False
    then have yx: "priority s y x" using assms(2) by (rule not_comparator_priority [rotated])
    from Cons.IH [OF tail] have "side_ordered s (emplace x ys)" .
    with yx below tags False show ?thesis by (simp add: side_ordered_def set_emplace)
  qed
qed

lemma set_erase_found: "set (erase_found P xs) \<subseteq> set xs"
  by (induction xs) auto

lemma side_ordered_erase_found: "side_ordered s xs \<Longrightarrow> side_ordered s (erase_found P xs)"
proof (induction xs)
  case Nil
  then show ?case by simp
next
  case (Cons y ys)
  then show ?case
    using set_erase_found [of P ys] by (auto simp: side_ordered_def)
qed

lemma side_ordered_tail: "side_ordered s (x # xs) \<Longrightarrow> side_ordered s xs"
  by (simp add: side_ordered_def)

lemma side_ordered_match_loop:
  "side_ordered s side \<Longrightarrow>
   side_ordered s (fst (snd (match_loop clk k order side accts txs)))"
proof (induction side arbitrary: k order accts txs)
  case Nil
  then show ?case by simp
next
  case (Cons t rest)
  have rest: "side_ordered s rest" using Cons.prems by (rule side_ordered_tail)
  have tag: "is_buy t = s" using Cons.prems by (simp add: side_ordered_def)
  have upd: "side_ordered s (emplace (t\<lparr>quantity := q\<rparr>) rest)" for q
    using rest tag by (intro side_ordered_emplace) simp_all
  have same: "\<lparr>order_id = order_id t, account_name = account_name t, is_buy = is_buy t,
       quantity = q, price = price t, timestamp = timestamp t\<rparr> = t\<lparr>quantity := q\<rparr>" for q
    by simp
  show ?case
    using Cons.prems Cons.IH [OF rest] upd
    by (simp add: Let_def same split: prod.splits)
qed

lemma book_ordered_add_order: "book_ordered b \<Longrightarrow> book_ordered (add_order order b)"
  by (simp add: book_ordered_def add_order_def Let_def side_ordered_emplace)

lemma book_ordered_remove_order: "book_ordered b \<Longrightarrow> book_ordered (remove_order oid b)"
  by (simp add: book_ordered_def remove_order_def Let_def side_ordered_erase_found)

lemma book_ordered_match_order:
  "book_ordered (order_book w) \<Longrightarrow> book_ordered (order_book (snd (match_order clk order w)))"
  using side_ordered_match_loop [of True "order_book w ''buy''" clk 0 order "accounts w" "transactions w"]
    side_ordered_match_loop [of False "order_book w ''sell''" clk 0 order "accounts w" "transactions w"]
  by (auto simp: book_ordered_def match_order_def Let_def split: prod.splits)

lemma book_ordered_process_order:
  "book_ordered (order_book w) \<Longrightarrow> book_ordered (order_book (fst (process_order clk order w)))"
  using book_ordered_match_order [of "w\<lparr>accounts := snd (is_allowed_order order (accounts w) (order_book w))\<rparr>" clk order]
  by (auto simp: process_order_def Let_def book_ordered_add_order split: prod.splits)

lemma book_ordered_engine_step:
  "book_ordered (order_book w) \<Longrightarrow> book_ordered (order_book (fst (engine_step clk msg w)))"
  by (cases msg) (simp_all add: book_ordered_process_order book_ordered_remove_order)

lemma book_ordered_empty: "book_ordered empty_book"
  by (simp add: book_ordered_def side_ordered_def empty_book_def)

text \<open>
  The partially filled order is erased and emplaced again: it stays first on its side
  unless another resting order has the same price and the same timestamp, in which case
  \<open>emplace\<close> puts it behind that order.
\<close>

lemma emplace_front:
  assumes "side_ordered s (t # rest)"
    and "\<forall>z\<in>set rest. \<not> (price z = price t \<and> timestamp z = timestamp t)"
  shows "emplace (t\<lparr>quantity := q\<rparr>) rest = t\<lparr>quantity := q\<rparr> # rest"
proof (cases rest)
  case Nil
  then show ?thesis by simp
next
  case (Cons z zs)
  with assms have "priority s t z" "is_buy t = s" "\<not> (price z = price t \<and> timestamp z = timestamp t)"
    by (simp_all add: side_ordered_def)
  then have "OrderComparator (t\<lparr>quantity := q\<rparr>) z"
    by (auto simp: priority_def OrderComparator_def split: if_splits)
  with Cons show ?thesis by simp
qed

lemma emplace_behind_tie:
  assumes "price z = price t" and "timestamp z = timestamp t"
  shows "emplace (t\<lparr>quantity := q\<rparr>) (z # rest) = z # emplace (t\<lparr>quantity := q\<rparr>) rest"
  using assms by (simp add: OrderComparator_def)

lemma book_ordered_setup: "book_ordered (order_book (setup_globals (\<lambda>k. int k)))"
  by (simp add: book_ordered_def side_ordered_def priority_def setup_buy setup_sell)

text \<open>
  Claim C6. After every mutation of the book (\<open>add_order\<close>, \<open>remove_order\<close> by id, and
  \<open>match_order\<close> with its removal of filled orders and its replacement of a partially
  filled one, hence after every step of the engine) the buy side is sorted by descending
  price, ties by ascending timestamp, and the sell side by ascending price, ties by
  ascending timestamp, provided the book was so ordered before. The empty book is ordered
  (\<open>book_ordered_empty\<close>).
\<close>

theorem price_time_priority_invariant:
  assumes "book_ordered (order_book w)"
  shows "book_ordered (add_order order (order_book w)) \<and>
         book_ordered (remove_order oid (order_book w)) \<and>
         book_ordered (order_book (snd (match_order clk order w))) \<and>
         book_ordered (order_book (fst (engine_step clk msg w)))"
  using assms
  by (simp add: book_ordered_add_order book_ordered_remove_order book_ordered_match_order
      book_ordered_engine_step)

theorem price_time_priority_invariant_witness:
  "book_ordered (order_book (setup_globals (\<lambda>k. int k))) \<and>
   book_ordered (add_order sell_10_at_22_5 (order_book (setup_globals (\<lambda>k. int k)))) \<and>
   book_ordered (remove_order (- 1) (order_book (setup_globals (\<lambda>k. int k)))) \<and>
   book_ordered (order_book (snd (match_order (\<lambda>k. 5) sell_10_at_22_5
     (setup_globals (\<lambda>k. int k))))) \<and>
   book_ordered (order_book (fst (engine_step (\<lambda>k. 5) (OrderMsg sell_10_at_22_5)
     (setup_globals (\<lambda>k. int k)))))"
  using price_time_priority_invariant [OF book_ordered_setup,
      of sell_10_at_22_5 "- 1" "\<lambda>k. 5" "OrderMsg sell_10_at_22_5"]
    book_ordered_setup
  by blast

subsection \<open>Self-trade prevention\<close>

lemma settle_accounts_no_self_trade:
  assumes "no_self_trade txs" and "b \<noteq> s"
  shows "no_self_trade (snd (settle_accounts b s q p ag now accts txs))"
  using assms by (simp add: settle_accounts_log no_self_trade_def)

lemma continues_parties: "continues aggr t \<Longrightarrow> buyer_of aggr t \<noteq> seller_of aggr t"
  by (auto simp: continues_def buyer_of_def seller_of_def)

lemma no_self_trade_walk:
  "walk clk k aggr side accts txs r \<Longrightarrow> no_self_trade txs \<Longrightarrow> no_self_trade (snd (snd (snd r)))"
proof (induction rule: walk.induct)
  case (walk_empty clk k aggr accts txs)
  then show ?case by simp
next
  case (walk_halt aggr t clk k rest accts txs)
  then show ?case by simp
next
  case (walk_full aggr t clk k accts txs accts' txs' rest r)
  have "no_self_trade (snd (settle_accounts (buyer_of aggr t) (seller_of aggr t) (quantity t)
      (price t) (side_name aggr) (clk k) accts txs))"
    using walk_full.prems continues_parties [OF walk_full.hyps(1)]
    by (rule settle_accounts_no_self_trade)
  then have "no_self_trade txs'" by (simp add: walk_full.hyps(3))
  then show ?case by (rule walk_full.IH)
next
  case (walk_partial aggr t clk k accts txs accts' txs' rest)
  have "no_self_trade (snd (settle_accounts (buyer_of aggr t) (seller_of aggr t) (quantity aggr)
      (price t) (side_name aggr) (clk k) accts txs))"
    using walk_partial.prems continues_parties [OF walk_partial.hyps(1)]
    by (rule settle_accounts_no_self_trade)
  then show ?case by (simp add: walk_partial.hyps(3))
qed

lemma no_self_trade_match_order:
  "no_self_trade (transactions w) \<Longrightarrow> no_self_trade (transactions (snd (match_order clk order w)))"
  using no_self_trade_walk [OF walk_match_loop, of "transactions w" clk 0 order
      "order_book w (opposite order)" "accounts w"]
  by (simp add: match_order_eq Let_def)

lemma no_self_trade_process_order:
  assumes "no_self_trade (transactions w)"
  shows "no_self_trade (transactions (fst (process_order clk order w)))"
  using assms
    no_self_trade_match_order [of "w\<lparr>accounts := subscript (accounts w) (account_name order)\<rparr>" clk order]
  by (simp add: process_order_eq Let_def)

lemma no_self_trade_engine_step:
  "no_self_trade (transactions w) \<Longrightarrow> no_self_trade (transactions (fst (engine_step clk msg w)))"
  by (cases msg) (simp_all add: no_self_trade_process_order)

lemma no_self_trade_reachable: "reachable w \<Longrightarrow> no_self_trade (transactions w)"
proof (induction rule: reachable.induct)
  case (start w)
  then show ?case by (simp add: no_self_trade_def)
next
  case (engine w clk msg)
  from engine.IH show ?case by (rule no_self_trade_engine_step)
next
  case (account_command w accts)
  then show ?case by simp
qed

lemma match_order_same_account_halts:
  assumes "order_book w (opposite aggr) = t # rest" and "account_name t = account_name aggr"
  shows "match_order clk aggr w = (aggr, w)"
proof -
  have "\<not> continues aggr t" using assms(2) by (simp add: continues_def)
  then have "match_loop clk 0 aggr (t # rest) (accounts w) (transactions w) =
      (aggr, t # rest, accounts w, transactions w)"
    by (rule match_loop_halt)
  moreover have "(order_book w)(opposite aggr := t # rest) = order_book w"
    using assms(1) by (simp add: fun_upd_idem)
  ultimately show ?thesis
    using assms(1) by (simp add: match_order_eq Let_def del: match_loop.simps)
qed

text \<open>
  Claim C4. In every reachable state no transaction of the log has its buyer equal to its
  seller. And when the order the walk looks at belongs to the aggressor's account, the loop
  stops there and then; in particular, when the first order of the opposite side does,
  \<open>match_order\<close> returns at once with the aggressor, the book, the balances and the log as
  they were: it does not go on to the orders behind, whether or not they cross and belong
  to other accounts.
\<close>

theorem no_self_match:
  "(reachable w \<longrightarrow> (\<forall>t\<in>set (transactions w). buyer t \<noteq> seller t)) \<and>
   (account_name t = account_name aggr \<longrightarrow>
      match_loop clk k aggr (t # rest) accts txs = (aggr, t # rest, accts, txs)) \<and>
   (order_book w (opposite aggr) = t # rest \<and> account_name t = account_name aggr \<longrightarrow>
      match_order clk aggr w = (aggr, w))"
proof -
  have "match_loop clk k aggr (t # rest) accts txs = (aggr, t # rest, accts, txs)"
    if "account_name t = account_name aggr"
    using that by (intro match_loop_halt) (simp add: continues_def)
  then show ?thesis
    using no_self_trade_reachable [of w] match_order_same_account_halts [of w aggr t rest clk]
    by (auto simp: no_self_trade_def simp del: match_loop.simps)
qed

lemma with_bob_ask_sell:
  "order_book with_bob_ask ''sell'' =
    [\<lparr>order_id = - 1, account_name = ''charlie'', is_buy = False, quantity = 8,
       price = 23.5, timestamp = 2\<rparr>,
     bob_sells_at_24,
     \<lparr>order_id = - 2, account_name = ''charlie'', is_buy = False, quantity = 8,
       price = 25.5, timestamp = 3\<rparr>]"
  by (simp add: with_bob_ask_def bob_sells_at_24_def process_order_eq is_allowed_order_def
      match_order_eq opposite_def Let_def setup_buy setup_sell setup_accounts setup_transactions
      entry_def add_order_def OrderComparator_def)

lemma reachable_with_bob_ask: "reachable with_bob_ask"
proof -
  have "reachable (setup_globals (\<lambda>k. int k))"
    by (rule start) (rule setup_transactions)
  then have "reachable (fst (engine_step (\<lambda>k. 5) (OrderMsg bob_sells_at_24) (setup_globals (\<lambda>k. int k))))"
    by (rule engine)
  then show ?thesis by (simp add: with_bob_ask_def)
qed

theorem no_self_match_witness:
  "reachable (fst (engine_step (\<lambda>k. 7) (OrderMsg sell_10_at_22_5) with_bob_ask)) \<and>
   no_self_trade (transactions (fst (engine_step (\<lambda>k. 7) (OrderMsg sell_10_at_22_5) with_bob_ask))) \<and>
   order_book with_bob_ask (opposite charlie_buys_at_26) =
     [charlie_asks_23_5, bob_sells_at_24, charlie_asks_25_5] \<and>
   account_name charlie_asks_23_5 = account_name charlie_buys_at_26 \<and>
   crosses charlie_buys_at_26 bob_sells_at_24 \<and>
   account_name bob_sells_at_24 \<noteq> account_name charlie_buys_at_26 \<and>
   match_order (\<lambda>k. 7) charlie_buys_at_26 with_bob_ask = (charlie_buys_at_26, with_bob_ask)"
proof -
  have r: "reachable (fst (engine_step (\<lambda>k. 7) (OrderMsg sell_10_at_22_5) with_bob_ask))"
    using reachable_with_bob_ask by (rule engine)
  have top: "order_book with_bob_ask (opposite charlie_buys_at_26) =
      charlie_asks_23_5 # [bob_sells_at_24, charlie_asks_25_5]"
    by (simp add: opposite_def charlie_buys_at_26_def with_bob_ask_sell charlie_asks_23_5_def
        charlie_asks_25_5_def)
  have same: "account_name charlie_asks_23_5 = account_name charlie_buys_at_26"
    by (simp add: charlie_buys_at_26_def charlie_asks_23_5_def)
  have c: "crosses charlie_buys_at_26 bob_sells_at_24"
    "account_name bob_sells_at_24 \<noteq> account_name charlie_buys_at_26"
    by (simp_all add: crosses_def charlie_buys_at_26_def bob_sells_at_24_def)
  have "no_self_trade (transactions (fst (engine_step (\<lambda>k. 7) (OrderMsg sell_10_at_22_5) with_bob_ask)))"
    using no_self_match [of "fst (engine_step (\<lambda>k. 7) (OrderMsg sell_10_at_22_5) with_bob_ask)"] r
    unfolding no_self_trade_def by blast
  moreover have "match_order (\<lambda>k. 7) charlie_buys_at_26 with_bob_ask = (charlie_buys_at_26, with_bob_ask)"
    using no_self_match [of with_bob_ask charlie_asks_23_5 charlie_buys_at_26 "\<lambda>k. 7" 0
        "[bob_sells_at_24, charlie_asks_25_5]" "accounts with_bob_ask"
        "transactions with_bob_ask"] top same
    by blast
  ultimately show ?thesis
    using r top same c by simp
qed

subsection \<open>Order ids\<close>

lemma fold_max_abs:
  assumes "\<forall>x\<in>set side. in_int32 \<bar>order_id x\<bar>"
  shows "fold (\<lambda>order last. max last (int32 \<bar>order_id order\<bar>)) side acc =
     Max (insert acc ((\<lambda>x. \<bar>order_id x\<bar>) ` set side))"
  using assms
proof (induction side arbitrary: acc)
  case Nil
  then show ?case by simp
next
  case (Cons x xs)
  have "Max (insert (max acc \<bar>order_id x\<bar>) ((\<lambda>x. \<bar>order_id x\<bar>) ` set xs)) =
        Max (insert acc (insert \<bar>order_id x\<bar> ((\<lambda>x. \<bar>order_id x\<bar>) ` set xs)))"
    by (cases "set xs = {}") (simp_all add: max.assoc)
  with Cons show ?case by (simp add: int32_id)
qed

lemma max_abs_id_nonneg: "0 \<le> max_abs_id side"
  by (simp add: max_abs_id_def)

lemma max_abs_id_ge: "x \<in> set side \<Longrightarrow> \<bar>order_id x\<bar> \<le> max_abs_id side"
  by (simp add: max_abs_id_def)

lemma get_last_order_id_eq:
  assumes "max_abs_id (b (if isBuy then ''buy'' else ''sell'')) < 2147483647"
  shows "get_last_order_id isBuy b =
     (if isBuy then 1 else - 1) * (max_abs_id (b (if isBuy then ''buy'' else ''sell'')) + 1)"
proof -
  let ?side = "b (if isBuy then ''buy'' else ''sell'')"
  have "in_int32 \<bar>order_id x\<bar>" if "x \<in> set ?side" for x
    using max_abs_id_ge [OF that] assms by (simp add: in_int32_def)
  then have last: "fold (\<lambda>order last. max last (int32 \<bar>order_id order\<bar>)) ?side 0 = max_abs_id ?side"
    by (simp add: fold_max_abs max_abs_id_def)
  have next_id: "int32 (max_abs_id ?side + 1) = max_abs_id ?side + 1"
    using assms max_abs_id_nonneg [of ?side] by (intro int32_id) (simp add: in_int32_def)
  have signed: "int32 (f * (max_abs_id ?side + 1)) = f * (max_abs_id ?side + 1)"
    if "f = 1 \<or> f = - 1" for f
    using that assms max_abs_id_nonneg [of ?side] by (intro int32_id) (auto simp: in_int32_def)
  show ?thesis
    unfolding get_last_order_id_def Let_def last
    using signed [of "if isBuy then 1 else - 1"] next_id
    by (cases "max_abs_id ?side = 0") simp_all
qed

text \<open>
  Claim C7, as amended. As long as the maximum absolute id resting on the target side is
  below \<open>INT_MAX\<close> = 2147483647, \<open>get_last_order_id\<close> returns sign * (max + 1), with sign +1 for
  buy and -1 for sell and max that maximum, 0 when the side is empty, so that the first
  order on a side gets id +1 or -1, and the magnitude of the result is greater than that of
  every id resting there. The result depends on the target side only.
\<close>

theorem next_id_spec:
  "(max_abs_id (b (if isBuy then ''buy'' else ''sell'')) < 2147483647 \<longrightarrow>
      get_last_order_id isBuy b =
        (if isBuy then 1 else - 1) * (max_abs_id (b (if isBuy then ''buy'' else ''sell'')) + 1) \<and>
      (\<forall>x\<in>set (b (if isBuy then ''buy'' else ''sell'')).
         \<bar>order_id x\<bar> < \<bar>get_last_order_id isBuy b\<bar>)) \<and>
   (b' (if isBuy then ''buy'' else ''sell'') = b (if isBuy then ''buy'' else ''sell'') \<longrightarrow>
      get_last_order_id isBuy b' = get_last_order_id isBuy b) \<and>
   get_last_order_id True empty_book = 1 \<and> get_last_order_id False empty_book = - 1"
proof -
  have "\<bar>order_id x\<bar> < \<bar>get_last_order_id isBuy b\<bar>"
    if "max_abs_id (b (if isBuy then ''buy'' else ''sell'')) < 2147483647"
      and "x \<in> set (b (if isBuy then ''buy'' else ''sell''))" for x
    using max_abs_id_ge [OF that(2)] max_abs_id_nonneg [of "b (if isBuy then ''buy'' else ''sell'')"]
      get_last_order_id_eq [of b isBuy, OF that(1)]
    by (cases isBuy) (simp_all add: abs_mult)
  moreover have "get_last_order_id True empty_book = 1" "get_last_order_id False empty_book = - 1"
    by (simp_all add: get_last_order_id_def empty_book_def int32_def)
  moreover have "get_last_order_id isBuy b' = get_last_order_id isBuy b"
    if "b' (if isBuy then ''buy'' else ''sell'') = b (if isBuy then ''buy'' else ''sell'')"
    using that by (simp add: get_last_order_id_def)
  ultimately show ?thesis
    using get_last_order_id_eq by blast
qed

lemma after_sell_buy_side:
  "order_book (fst (process_order (\<lambda>k. 5) sell_10_at_22_5 (setup_globals (\<lambda>k. int k)))) ''buy''
   = [\<lparr>order_id = 1, account_name = ''alice'', is_buy = True, quantity = 1,
        price = 20.5, timestamp = 0\<rparr>]"
  by (simp add: sell_10_at_22_5_def process_order_eq is_allowed_order_def match_order_eq
      opposite_def Let_def case_prod_beta setup_buy setup_sell setup_accounts setup_transactions
      entry_def add_order_def)

text \<open>
  Claim C7 as stated says that the ids minted on a side increase monotonically. They do
  not: on the book of \<open>setup()\<close> the next buy id is 3; after charlie's sell order has taken
  bob's bid (id 2) the next buy id is 2, the id bob's order had.
\<close>

theorem next_id_not_monotone:
  "get_last_order_id True (order_book (setup_globals (\<lambda>k. int k))) = 3 \<and>
   get_last_order_id True
     (order_book (fst (process_order (\<lambda>k. 5) sell_10_at_22_5 (setup_globals (\<lambda>k. int k))))) = 2 \<and>
   get_last_order_id True
     (order_book (fst (process_order (\<lambda>k. 5) sell_10_at_22_5 (setup_globals (\<lambda>k. int k)))))
   < get_last_order_id True (order_book (setup_globals (\<lambda>k. int k)))"
  by (simp add: get_last_order_id_def Let_def after_sell_buy_side setup_buy) (simp add: int32_def)

text \<open>
  At the bound the increment wraps: with the id \<open>INT_MAX\<close> resting on the buy side the next
  buy id is \<open>INT_MIN\<close>.
\<close>

lemma next_id_overflow: "get_last_order_id True int_max_book = - 2147483648"
  by (simp add: get_last_order_id_def Let_def int_max_book_def) (simp add: int32_def)

theorem next_id_spec_witness:
  "max_abs_id (order_book (setup_globals (\<lambda>k. int k)) ''buy'') = 2 \<and>
   get_last_order_id True (order_book (setup_globals (\<lambda>k. int k))) = 3 \<and>
   max_abs_id (order_book (setup_globals (\<lambda>k. int k)) ''sell'') = 2 \<and>
   get_last_order_id False (order_book (setup_globals (\<lambda>k. int k))) = - 3 \<and>
   bob_bids_22_5 \<in> set (order_book (setup_globals (\<lambda>k. int k)) ''buy'') \<and>
   \<bar>order_id bob_bids_22_5\<bar> < \<bar>get_last_order_id True (order_book (setup_globals (\<lambda>k. int k)))\<bar> \<and>
   order_book with_alice_ask ''buy'' = order_book (setup_globals (\<lambda>k. int k)) ''buy'' \<and>
   get_last_order_id True (order_book with_alice_ask) =
     get_last_order_id True (order_book (setup_globals (\<lambda>k. int k)))"
proof -
  let ?b = "order_book (setup_globals (\<lambda>k. int k))"
  have m: "max_abs_id (?b ''buy'') = 2" "max_abs_id (?b ''sell'') = 2"
    by (simp_all add: max_abs_id_def setup_buy setup_sell)
  have mem: "bob_bids_22_5 \<in> set (?b ''buy'')"
    by (simp add: setup_book_named)
  have same: "order_book with_alice_ask ''buy'' = ?b ''buy''"
    by (rule with_alice_ask_book)
  from next_id_spec [of ?b True "order_book with_alice_ask"] m
  have "get_last_order_id True ?b = max_abs_id (?b ''buy'') + 1"
    and "\<forall>x\<in>set (?b ''buy''). \<bar>order_id x\<bar> < \<bar>get_last_order_id True ?b\<bar>"
    and "order_book with_alice_ask ''buy'' = ?b ''buy'' \<longrightarrow>
         get_last_order_id True (order_book with_alice_ask) = get_last_order_id True ?b"
    by auto
  moreover from next_id_spec [of ?b False ?b] m
  have "get_last_order_id False ?b = - (max_abs_id (?b ''sell'') + 1)"
    by simp
  ultimately show ?thesis
    using m mem same by simp
qed

subsection \<open>Settlement\<close>















subsection \<open>Admission\<close>

lemma find_None_rests_at:
  "(List.find (\<lambda>x. account_name x = name \<and> price x = p) side = None) = (\<not> rests_at side name p)"
  by (auto simp: find_None_iff rests_at_def)

lemma is_allowed_order_iff:
  "fst (is_allowed_order order accts b) =
     (if is_buy order
      then dge (usd_balance (entry accts (account_name order)))
             (round_double (of_int (quantity order) * price order)) \<and>
           \<not> rests_at (b ''sell'') (account_name order) (price order)
      else quantity order \<le> coin_balance (entry accts (account_name order)) \<and>
           \<not> rests_at (b ''buy'') (account_name order) (price order))"
  by (simp add: is_allowed_order_def find_None_rests_at)

lemma dge_exact:
  "usd = Finite u \<Longrightarrow> representable x \<Longrightarrow> dge usd (round_double x) = (x \<le> u)"
  by (simp add: representable_def)

lemma process_order_rejected:
  assumes "\<not> fst (is_allowed_order order (accounts w) (order_book w))"
  shows "snd (process_order clk order w) = [''Order rejected'']"
    and "order_book (fst (process_order clk order w)) = order_book w"
    and "transactions (fst (process_order clk order w)) = transactions w"
  using assms by (simp_all add: process_order_eq Let_def)

lemma process_order_admitted:
  assumes "fst (is_allowed_order order (accounts w) (order_book w))"
  shows "snd (process_order clk order w) = []"
  using assms by (simp add: process_order_eq Let_def)

text \<open>
  Claim C5, as amended. A buy order is admitted iff the account's USD balance is at least
  the product \<open>quantity * price\<close> as the machine computes it, which is the exact product
  rounded to the nearest double, and the account has no order resting on the sell side at
  exactly that price; when the balance is finite and the product is representable this is
  the comparison with the exact product. A sell order is admitted iff the account's asset
  balance is at least the quantity and the account has no order resting on the buy side at
  that price. An admitted order is not reported; a refused one is reported as
  \<open>Order rejected\<close> and the book and the transaction log stay as they were. The balance is
  the one \<open>accounts[name]\<close> reads (zero for an account that is not in the table).
\<close>

theorem admission_gate:
  "fst (is_allowed_order order (accounts w) (order_book w)) =
     (if is_buy order
      then dge (usd_balance (entry (accounts w) (account_name order)))
             (round_double (of_int (quantity order) * price order)) \<and>
           \<not> rests_at (order_book w ''sell'') (account_name order) (price order)
      else quantity order \<le> coin_balance (entry (accounts w) (account_name order)) \<and>
           \<not> rests_at (order_book w ''buy'') (account_name order) (price order)) \<and>
   (is_buy order \<and> usd_balance (entry (accounts w) (account_name order)) = Finite u \<and>
    representable (of_int (quantity order) * price order) \<longrightarrow>
      fst (is_allowed_order order (accounts w) (order_book w)) =
        (of_int (quantity order) * price order \<le> u \<and>
         \<not> rests_at (order_book w ''sell'') (account_name order) (price order))) \<and>
   (fst (is_allowed_order order (accounts w) (order_book w)) \<longrightarrow>
      snd (process_order clk order w) = []) \<and>
   (\<not> fst (is_allowed_order order (accounts w) (order_book w)) \<longrightarrow>
      snd (process_order clk order w) = [''Order rejected''] \<and>
      order_book (fst (process_order clk order w)) = order_book w \<and>
      transactions (fst (process_order clk order w)) = transactions w)"
proof -
  have "fst (is_allowed_order order (accounts w) (order_book w)) =
        (of_int (quantity order) * price order \<le> u \<and>
         \<not> rests_at (order_book w ''sell'') (account_name order) (price order))"
    if "is_buy order" "usd_balance (entry (accounts w) (account_name order)) = Finite u"
      "representable (of_int (quantity order) * price order)"
    using that by (simp add: is_allowed_order_iff dge_exact)
  then show ?thesis
    using is_allowed_order_iff [of order "accounts w" "order_book w"]
      process_order_rejected [of order w clk] process_order_admitted [of order w clk]
    by blast
qed

theorem admission_gate_witness:
  "is_buy alice_buys_at_30 \<and>
   usd_balance (entry (accounts with_alice_ask) (account_name alice_buys_at_30)) = Finite 6000 \<and>
   representable (of_int (quantity alice_buys_at_30) * price alice_buys_at_30) \<and>
   of_int (quantity alice_buys_at_30) * price alice_buys_at_30 \<le> 6000 \<and>
   rests_at (order_book with_alice_ask ''sell'') (account_name alice_buys_at_30) (price alice_buys_at_30) \<and>
   \<not> fst (is_allowed_order alice_buys_at_30 (accounts with_alice_ask) (order_book with_alice_ask)) \<and>
   snd (process_order (\<lambda>k. 7) alice_buys_at_30 with_alice_ask) = [''Order rejected''] \<and>
   order_book (fst (process_order (\<lambda>k. 7) alice_buys_at_30 with_alice_ask)) = order_book with_alice_ask \<and>
   transactions (fst (process_order (\<lambda>k. 7) alice_buys_at_30 with_alice_ask)) = transactions with_alice_ask \<and>
   fst (is_allowed_order sell_10_at_22_5 (accounts with_alice_ask) (order_book with_alice_ask)) \<and>
   snd (process_order (\<lambda>k. 7) sell_10_at_22_5 with_alice_ask) = []"
proof -
  have funds: "usd_balance (entry (accounts with_alice_ask) (account_name alice_buys_at_30)) =
      Finite 6000"
    by (simp add: alice_buys_at_30_def with_alice_ask_book setup_accounts entry_def)
  have product: "representable (of_int (quantity alice_buys_at_30) * price alice_buys_at_30)"
    "of_int (quantity alice_buys_at_30) * price alice_buys_at_30 \<le> 6000"
    by (simp_all add: alice_buys_at_30_def representable_def round_double_examples)
  have rests: "rests_at (order_book with_alice_ask ''sell'') (account_name alice_buys_at_30)
      (price alice_buys_at_30)"
    by (simp add: rests_at_def with_alice_ask_book alice_buys_at_30_def alice_sells_at_30_def)
  have coins: "quantity sell_10_at_22_5
     \<le> coin_balance (entry (accounts with_alice_ask) (account_name sell_10_at_22_5))"
    by (simp add: sell_10_at_22_5_def with_alice_ask_book setup_accounts entry_def)
  have free: "\<not> rests_at (order_book with_alice_ask ''buy'') (account_name sell_10_at_22_5)
      (price sell_10_at_22_5)"
    by (simp add: rests_at_def with_alice_ask_book setup_buy sell_10_at_22_5_def)
  have buy: "is_buy alice_buys_at_30" and sell: "\<not> is_buy sell_10_at_22_5"
    by (simp_all add: alice_buys_at_30_def sell_10_at_22_5_def)
  from admission_gate [of alice_buys_at_30 with_alice_ask 6000 "\<lambda>k. 7"]
    admission_gate [of sell_10_at_22_5 with_alice_ask 0 "\<lambda>k. 7"]
  show ?thesis
    using funds product rests coins free buy sell by simp
qed

text \<open>
  Claim C5 as stated compares the balance with \<open>quantity * price\<close>. Dave holds the double
  the text \<open>0.03\<close> is read as and bids for 3 at the double \<open>0.01\<close> is read as: the exact
  product is greater than his balance, and the order is admitted, because the product
  rounds to his balance.
\<close>

theorem admission_compares_rounded_product:
  "round_double (1 / 100) = Finite cent \<and> round_double (3 / 100) = Finite three_cents \<and>
   usd_balance (entry dave_accounts (account_name dave_bids_3_at_cent)) = Finite three_cents \<and>
   three_cents < of_int (quantity dave_bids_3_at_cent) * price dave_bids_3_at_cent \<and>
   fst (is_allowed_order dave_bids_3_at_cent dave_accounts empty_book) \<and>
   snd (process_order (\<lambda>k. 5) dave_bids_3_at_cent
         \<lparr>accounts = dave_accounts, transactions = [], order_book = empty_book\<rparr>) = []"
proof -
  have admitted: "fst (is_allowed_order dave_bids_3_at_cent dave_accounts empty_book)"
    by (simp add: is_allowed_order_def dave_bids_3_at_cent_def dave_accounts_def entry_def
        empty_book_def round_double_examples)
  then have "snd (process_order (\<lambda>k. 5) dave_bids_3_at_cent
         \<lparr>accounts = dave_accounts, transactions = [], order_book = empty_book\<rparr>) = []"
    by (simp add: process_order_admitted)
  with admitted show ?thesis
    by (simp add: round_double_examples dave_bids_3_at_cent_def dave_accounts_def entry_def)
qed

text \<open>
  Claim C8, evaluated on the code. The claim: an operation that names an account missing
  from the account table is reported as an error and changes no state. The account
  \<open>ghost\<close> is not in the table of \<open>setup()\<close>. Its buy of 5 at 30 is refused with the general
  \<open>Order rejected\<close>, and the table has gained the entry \<open>ghost\<close> with zero balances; its buy
  of 5 at price 0 is admitted without any report and rests in the book.
\<close>

theorem unknown_account_changes_state:
  "accounts (setup_globals (\<lambda>k. int k)) ''ghost'' = None \<and>
   process_order (\<lambda>k. 5) ghost_buys_at_30 (setup_globals (\<lambda>k. int k)) =
     ((setup_globals (\<lambda>k. int k))
        \<lparr>accounts := (accounts (setup_globals (\<lambda>k. int k)))
           (''ghost'' \<mapsto> \<lparr>usd_balance = Finite 0, coin_balance = 0\<rparr>)\<rparr>,
      [''Order rejected'']) \<and>
   snd (process_order (\<lambda>k. 5) ghost_buys_at_0 (setup_globals (\<lambda>k. int k))) = [] \<and>
   order_book (fst (process_order (\<lambda>k. 5) ghost_buys_at_0 (setup_globals (\<lambda>k. int k)))) ''buy'' =
     order_book (setup_globals (\<lambda>k. int k)) ''buy'' @ [ghost_buys_at_0] \<and>
   accounts (fst (process_order (\<lambda>k. 5) ghost_buys_at_0 (setup_globals (\<lambda>k. int k)))) ''ghost'' =
     Some \<lparr>usd_balance = Finite 0, coin_balance = 0\<rparr>"
  by (simp add: ghost_buys_at_30_def ghost_buys_at_0_def process_order_eq is_allowed_order_def
      match_order_eq opposite_def Let_def setup_buy setup_sell setup_accounts setup_transactions
      entry_def subscript_def add_order_def OrderComparator_def round_double_examples)

end
